theory Spec2Isabelle
  imports Complex_Main
begin

section \<open>Python and numpy primitives used by segmenter.py\<close>

text \<open>
  Label arrays are numpy integer arrays, modelled as \<open>int list\<close>. Every exception of
  the source is a value: a function that can raise returns \<open>py_error + 'a\<close>.
\<close>

datatype py_error = IndexError | ValueError

text \<open>
  \<open>xs[i]\<close> on a list, a string or a one-dimensional array: a negative index counts
  from the end, and an index outside \<open>[-len, len)\<close> raises IndexError.
\<close>

definition py_index :: "'a list \<Rightarrow> int \<Rightarrow> py_error + 'a" where
  "py_index xs i =
     (if 0 \<le> i \<and> i < int (length xs) then Inr (xs ! nat i)
      else if i < 0 \<and> - int (length xs) \<le> i then Inr (xs ! nat (int (length xs) + i))
      else Inl IndexError)"

text \<open>
  A slice bound of Python: a negative bound counts from the end, and the result is clipped
  to \<open>[0, len]\<close>.
\<close>

definition slice_bound :: "nat \<Rightarrow> int \<Rightarrow> nat" where
  "slice_bound n i = (if i < 0 then nat (max 0 (int n + i)) else min n (nat i))"

text \<open>\<open>xs[a:b] = v\<close> with a scalar \<open>v\<close>: every position of the slice receives \<open>v\<close>.\<close>

definition slice_assign :: "'a list \<Rightarrow> int \<Rightarrow> int \<Rightarrow> 'a \<Rightarrow> 'a list" where
  "slice_assign xs a b v =
     (let lo = slice_bound (length xs) a; hi = slice_bound (length xs) b
      in map (\<lambda>k. if lo \<le> k \<and> k < hi then v else xs ! k) [0..<length xs])"

text \<open>\<open>np.diff(a)\<close>: \<open>out[i] = a[i+1] - a[i]\<close>, one element shorter (empty stays empty).\<close>

definition np_diff :: "int list \<Rightarrow> int list" where
  "np_diff xs = map (\<lambda>i. xs ! Suc i - xs ! i) [0..<length xs - 1]"

text \<open>\<open>np.nonzero(b)[0]\<close> for a boolean array: the indices holding True, ascending.\<close>

definition np_nonzero :: "bool list \<Rightarrow> int list" where
  "np_nonzero bs = map int (filter (\<lambda>i. bs ! i) [0..<length bs])"

section \<open>remove_short_segments\<close>

text \<open>
  \<open>segment_borders = np.nonzero(np.diff(labels))[0]\<close>: the indices \<open>i\<close> with
  \<open>labels[i] \<noteq> labels[i+1]\<close>.
\<close>

definition segment_borders :: "int list \<Rightarrow> int list" where
  "segment_borders labels = np_nonzero (map (\<lambda>d. d \<noteq> 0) (np_diff labels))"

text \<open>
  \<open>short_segments_idx = np.nonzero(np.diff(segment_borders) < min_segment_length)[0]\<close>.
\<close>

definition short_segments_idx :: "int list \<Rightarrow> int \<Rightarrow> int list" where
  "short_segments_idx borders min_segment_length =
     np_nonzero (map (\<lambda>d. d < min_segment_length) (np_diff borders))"

text \<open>
  One pass of the loop body for the index \<open>idx\<close>. Both \<open>try\<close> blocks catch IndexError
  only; an IndexError raised inside the second handler (\<open>labels[end]\<close>) leaves the
  function.
\<close>

definition merge_short_segment :: "int list \<Rightarrow> int \<Rightarrow> int list \<Rightarrow> py_error + int list" where
  "merge_short_segment borders idx labels =
     (case py_index borders idx of
        Inl e \<Rightarrow> Inl e
      | Inr start \<Rightarrow>
          (let end = (case py_index borders (idx + 1) of
                        Inr b \<Rightarrow> b + 1
                      | Inl _ \<Rightarrow> int (length labels))
           in case (case py_index labels (start - 1) of
                      Inr l \<Rightarrow> Inr l
                    | Inl _ \<Rightarrow> py_index labels end) of
                Inl e \<Rightarrow> Inl e
              | Inr label \<Rightarrow> Inr (slice_assign labels start end label)))"

text \<open>
  The \<open>for idx in short_segments_idx\<close> loop: the borders are those of the array at
  entry, the labels are updated in place from one pass to the next.
\<close>

fun merge_loop :: "int list \<Rightarrow> int list \<Rightarrow> int list \<Rightarrow> py_error + int list" where
  "merge_loop borders [] labels = Inr labels"
| "merge_loop borders (idx # rest) labels =
     (case merge_short_segment borders idx labels of
        Inl e \<Rightarrow> Inl e
      | Inr labels' \<Rightarrow> merge_loop borders rest labels')"

text \<open>The function mutates \<open>labels\<close>; the model returns the array after the call.\<close>

definition remove_short_segments :: "int list \<Rightarrow> int \<Rightarrow> py_error + int list" where
  "remove_short_segments labels min_segment_length =
     (let borders = segment_borders labels
      in merge_loop borders (short_segments_idx borders min_segment_length) labels)"

text \<open>
  The specification's vocabulary for the merger, written from its words: a boundary is a
  position where the label changes from one frame to the next, an inter-boundary span
  lies between two consecutive boundaries, and a sequence is compliant for a threshold
  when no such span is shorter than it.
\<close>

definition is_boundary :: "int list \<Rightarrow> nat \<Rightarrow> bool" where
  "is_boundary labels i \<longleftrightarrow> Suc i < length labels \<and> labels ! i \<noteq> labels ! Suc i"

definition no_short_span :: "int list \<Rightarrow> int \<Rightarrow> bool" where
  "no_short_span labels m \<longleftrightarrow>
     (\<forall>i<length labels. \<forall>j<length labels.
        i < j \<and> is_boundary labels i \<and> is_boundary labels j
          \<and> (\<forall>k<j. i < k \<longrightarrow> \<not> is_boundary labels k)
        \<longrightarrow> m \<le> int j - int i)"

section \<open>convert_labels_to_segments\<close>














section \<open>create_sparse_W_prior\<close>



section \<open>segment_song: the decomposition driver\<close>

text \<open>
  A two-dimensional float array with its shape; entries are modelled as reals. The driver
  reads the feature sequence and the reconstruction only through the number of rows and
  the column sums.
\<close>

record array2 =
  shape0 :: nat
  shape1 :: nat
  item :: "nat \<Rightarrow> nat \<Rightarrow> real"

text \<open>\<open>a.sum(0)\<close>: one sum per column.\<close>

definition column_sums :: "array2 \<Rightarrow> real list" where
  "column_sums a = map (\<lambda>t. sum_list (map (\<lambda>f. item a f t) [0..<shape0 a])) [0..<shape1 a]"

text \<open>\<open>np.sum(a.sum(0) <= lowen)\<close>: the number of low-energy frames.\<close>

definition low_energy_frames :: "array2 \<Rightarrow> real \<Rightarrow> int" where
  "low_energy_frames a lowen = int (length (filter (\<lambda>x. x \<le> lowen) (column_sums a)))"

text \<open>\<open>np.finfo(float).eps\<close>\<close>

definition finfo_eps :: real where
  "finfo_eps = 1 / 2 ^ 52"

text \<open>
  The tuple \<open>(W, Z, H, norm, recon, div)\<close> returned by \<open>plca.SIPLCA.analyze\<close>. The driver
  passes \<open>W\<close> and \<open>H\<close> on unread, so their types are left open here.
\<close>

record ('w, 'h) decomposition =
  d_W :: 'w
  d_Z :: "real list"
  d_H :: 'h
  d_norm :: real
  d_recon :: array2
  d_div :: real

text \<open>The arguments of one call \<open>plca.SIPLCA.analyze(seq, rank=rank, win=win, **kwargs)\<close>.\<close>

record 'k analyze_args =
  a_seq :: array2
  a_rank :: int
  a_win :: int
  a_kwargs :: 'k

text \<open>
  The factorization engine is external and randomized: it is a parameter of the model, a
  function from its arguments and the state of the random generator to a decomposition
  and the next state. An exception raised inside the engine is outside the model.

  The loop \<open>for n in xrange(nrep): outputs.append(...)\<close>, with \<open>call\<close> the engine applied
  to the arguments of this run.
\<close>

fun run_analyses ::
  "('s \<Rightarrow> ('w, 'h) decomposition \<times> 's) \<Rightarrow> nat \<Rightarrow> 's \<Rightarrow> ('w, 'h) decomposition list \<times> 's" where
  "run_analyses call 0 s = ([], s)"
| "run_analyses call (Suc n) s =
     (case call s of (d, s1) \<Rightarrow>
        (case run_analyses call n s1 of (ds, s2) \<Rightarrow> (d # ds, s2)))"

text \<open>
  \<open>np.argmin\<close> scans from the left and keeps the first position of the least value:
  \<open>argmin_scan xs i best v\<close> continues the scan at position \<open>i\<close> with the least value
  \<open>v\<close> seen so far, found at \<open>best\<close>. An empty argument raises ValueError.
\<close>

fun argmin_scan :: "real list \<Rightarrow> nat \<Rightarrow> nat \<Rightarrow> real \<Rightarrow> nat" where
  "argmin_scan [] i best v = best"
| "argmin_scan (x # xs) i best v =
     (if x < v then argmin_scan xs (Suc i) i x else argmin_scan xs (Suc i) best v)"

definition np_argmin :: "real list \<Rightarrow> py_error + nat" where
  "np_argmin xs = (case xs of [] \<Rightarrow> Inl ValueError | x # rest \<Rightarrow> Inr (argmin_scan rest 1 0 x))"

text \<open>
  \<open>div = [x[-1] for x in outputs]; W, Z, H, norm, recon, div = outputs[np.argmin(div)]\<close>
\<close>

definition select_best :: "('w, 'h) decomposition list \<Rightarrow> py_error + ('w, 'h) decomposition" where
  "select_best outputs =
     (case np_argmin (map d_div outputs) of
        Inl e \<Rightarrow> Inl e
      | Inr k \<Rightarrow> py_index outputs (int k))"

text \<open>
  One round: \<open>nrep\<close> calls of the engine, then the selection. The source writes this
  block twice, before the \<open>while\<close> loop and inside it.
\<close>

definition analysis_round ::
  "('s \<Rightarrow> ('w, 'h) decomposition \<times> 's) \<Rightarrow> int \<Rightarrow> 's \<Rightarrow> py_error + ('w, 'h) decomposition \<times> 's" where
  "analysis_round call nrep s =
     (case run_analyses call (nat nrep) s of
        (outputs, s') \<Rightarrow>
          (case select_best outputs of Inl e \<Rightarrow> Inl e | Inr d \<Rightarrow> Inr (d, s')))"

text \<open>The condition of the quality gate: \<open>len(Z) < minsegments or nlowen_recon > maxlowen\<close>.\<close>

definition gate_fails :: "int \<Rightarrow> int \<Rightarrow> real \<Rightarrow> ('w, 'h) decomposition \<Rightarrow> bool" where
  "gate_fails minsegments maxlowen lowen d \<longleftrightarrow>
     int (length (d_Z d)) < minsegments \<or> low_energy_frames (d_recon d) lowen > maxlowen"

text \<open>
  The \<open>while\<close> loop, entered with the decomposition \<open>d\<close> selected so far and \<open>nretries\<close>
  retries left.
\<close>

function retry_loop ::
  "('s \<Rightarrow> ('w, 'h) decomposition \<times> 's) \<Rightarrow> int \<Rightarrow> int \<Rightarrow> int \<Rightarrow> real \<Rightarrow> int
     \<Rightarrow> ('w, 'h) decomposition \<Rightarrow> 's \<Rightarrow> py_error + ('w, 'h) decomposition \<times> 's" where
  "retry_loop call nrep minsegments maxlowen lowen nretries d s =
     (if gate_fails minsegments maxlowen lowen d \<and> nretries > 0
      then (case analysis_round call nrep s of
              Inl e \<Rightarrow> Inl e
            | Inr (d', s') \<Rightarrow> retry_loop call nrep minsegments maxlowen lowen (nretries - 1) d' s')
      else Inr (d, s))"
  by pat_completeness auto
termination
  by (relation "measure (\<lambda>(call, nrep, minsegments, maxlowen, lowen, nretries, d, s). nat nretries)")
     auto

declare retry_loop.simps [simp del]

text \<open>
  \<open>if nlowen_seq > maxlowen: maxlowen = nlowen_seq\<close>, with
  \<open>lowen = seq.shape[0] * np.finfo(float).eps\<close>.
\<close>

definition effective_maxlowen :: "array2 \<Rightarrow> int \<Rightarrow> int" where
  "effective_maxlowen seq maxlowen =
     (let lowen = real (shape0 seq) * finfo_eps; nlowen_seq = low_energy_frames seq lowen
      in if nlowen_seq > maxlowen then nlowen_seq else maxlowen)"

text \<open>
  Lines 222 to 246 of \<open>segment_song\<close>: the first round, the threshold, the retry loop.
  \<open>seq\<close> is the working copy of the feature sequence at that point (after the optional
  normalisation), \<open>kwargs\<close> the engine options after the initialisation overrides, \<open>s\<close>
  the state of the random generator after seeding. The result is the decomposition that
  the rest of the function (optional downbeat alignment, label extraction) starts from.
\<close>

definition segment_song_decomposition ::
  "('k analyze_args \<Rightarrow> 's \<Rightarrow> ('w, 'h) decomposition \<times> 's) \<Rightarrow> array2 \<Rightarrow> int \<Rightarrow> int \<Rightarrow> int
     \<Rightarrow> int \<Rightarrow> int \<Rightarrow> int \<Rightarrow> 'k \<Rightarrow> 's \<Rightarrow> py_error + ('w, 'h) decomposition \<times> 's" where
  "segment_song_decomposition analyze seq rank win nrep minsegments maxlowen maxretries kwargs s =
     (let call = analyze \<lparr>a_seq = seq, a_rank = rank, a_win = win, a_kwargs = kwargs\<rparr>
      in case analysis_round call nrep s of
           Inl e \<Rightarrow> Inl e
         | Inr (d, s1) \<Rightarrow>
             retry_loop call nrep minsegments (effective_maxlowen seq maxlowen)
               (real (shape0 seq) * finfo_eps) maxretries d s1)"

text \<open>
  The vocabulary of the claims about the driver. The engine is called again and again with
  the same arguments, each call starting from the random state the previous one left:
  \<open>nth_state call s m\<close> is the state after \<open>m\<close> calls and \<open>attempt call s m\<close> the
  decomposition that call number \<open>m\<close> (counted from 0) returns. Round \<open>i\<close> of the driver
  makes the calls \<open>i * nrep, \<dots>, i * nrep + nrep - 1\<close>; \<open>round_choice\<close> is the
  decomposition selected in that round.
\<close>

definition nth_state :: "('s \<Rightarrow> 'd \<times> 's) \<Rightarrow> 's \<Rightarrow> nat \<Rightarrow> 's" where
  "nth_state call s m = ((\<lambda>x. snd (call x)) ^^ m) s"

definition attempt :: "('s \<Rightarrow> 'd \<times> 's) \<Rightarrow> 's \<Rightarrow> nat \<Rightarrow> 'd" where
  "attempt call s m = fst (call (nth_state call s m))"

definition round_choice ::
  "('s \<Rightarrow> ('w, 'h) decomposition \<times> 's) \<Rightarrow> int \<Rightarrow> 's \<Rightarrow> nat \<Rightarrow> ('w, 'h) decomposition" where
  "round_choice call nrep s i =
     fst (projr (analysis_round call nrep (nth_state call s (i * nat nrep))))"

text \<open>
  A deterministic stand-in for the engine, used to run the driver on concrete inputs: call
  number \<open>s\<close> returns the divergence and the number of mixing weights listed at position
  \<open>s\<close> of \<open>script\<close>, and the input sequence itself as reconstruction.
\<close>

definition scripted_analyze ::
  "(real \<times> nat) list \<Rightarrow> unit analyze_args \<Rightarrow> nat \<Rightarrow> (unit, unit) decomposition \<times> nat" where
  "scripted_analyze script args s =
     (\<lparr>d_W = (), d_Z = replicate (snd (script ! s)) 1, d_H = (), d_norm = 1,
        d_recon = a_seq args, d_div = fst (script ! s)\<rparr>, Suc s)"

text \<open>
  A second stand-in, whose script also lists the reconstruction each call returns.
\<close>

definition recon_analyze ::
  "(real \<times> nat \<times> array2) list \<Rightarrow> unit analyze_args \<Rightarrow> nat \<Rightarrow> (unit, unit) decomposition \<times> nat" where
  "recon_analyze script args s =
     (\<lparr>d_W = (), d_Z = replicate (fst (snd (script ! s))) 1, d_H = (), d_norm = 1,
        d_recon = snd (snd (script ! s)), d_div = fst (script ! s)\<rparr>, Suc s)"

section \<open>The segmentation extractors\<close>

text \<open>
  The basis tensor \<open>W\<close> of shape \<open>(F, rank, win)\<close>, the slice \<open>W[:, k]\<close> (equally item \<open>k\<close>
  of \<open>np.transpose(W, (1, 0, 2))\<close>) and the rows of a two-dimensional array.
\<close>

record array3 =
  dim0 :: nat
  dim1 :: nat
  dim2 :: nat
  entry :: "nat \<Rightarrow> nat \<Rightarrow> nat \<Rightarrow> real"

definition basis :: "array3 \<Rightarrow> nat \<Rightarrow> array2" where
  "basis W k = \<lparr>shape0 = dim0 W, shape1 = dim2 W, item = \<lambda>f t. entry W f k t\<rparr>"

definition row :: "array2 \<Rightarrow> nat \<Rightarrow> real list" where
  "row a k = map (item a k) [0..<shape1 a]"

text \<open>\<open>np.ones(n)\<close>: a negative length raises ValueError.\<close>

definition np_ones :: "int \<Rightarrow> py_error + real list" where
  "np_ones n = (if n < 0 then Inl ValueError else Inr (replicate (nat n) 1))"

text \<open>
  numpy's one-dimensional correlation in mode \<open>same\<close>, for a first argument at least as
  long as the second: the output has the length of the first argument, and position \<open>k\<close>
  sums \<open>a[k + j - n_left] * v[j]\<close> over the \<open>j\<close> for which the index into \<open>a\<close> exists,
  with \<open>n_left = len(v) // 2\<close>.
\<close>

definition correlate_same :: "real list \<Rightarrow> real list \<Rightarrow> real list" where
  "correlate_same a v =
     map (\<lambda>k. sum_list (map (\<lambda>j. a ! (k + j - length v div 2) * v ! j)
                    (filter (\<lambda>j. length v div 2 \<le> k + j \<and> k + j - length v div 2 < length a)
                       [0..<length v])))
       [0..<length a]"

text \<open>
  \<open>np.convolve(a, v, 'same')\<close>: the arguments are swapped when \<open>v\<close> is the longer one, an
  empty argument raises ValueError, and the result is the correlation with the reversed
  second argument. Its length is the larger of the two lengths.
\<close>

definition np_convolve_same :: "real list \<Rightarrow> real list \<Rightarrow> py_error + real list" where
  "np_convolve_same a v =
     (if length v > length a
      then (if v = [] then Inl ValueError
            else if a = [] then Inl ValueError
            else Inr (correlate_same v (rev a)))
      else (if a = [] then Inl ValueError
            else if v = [] then Inl ValueError
            else Inr (correlate_same a (rev v))))"

text \<open>
  \<open>np.argmax\<close> keeps the first position of the greatest value. The arrays reduced with
  it below have at least one entry along the reduced axis (an empty one has raised
  before), so the empty case is never reached.
\<close>

fun argmax_scan :: "real list \<Rightarrow> nat \<Rightarrow> nat \<Rightarrow> real \<Rightarrow> nat" where
  "argmax_scan [] i best v = best"
| "argmax_scan (x # xs) i best v =
     (if v < x then argmax_scan xs (Suc i) i x else argmax_scan xs (Suc i) best v)"

definition first_argmax :: "real list \<Rightarrow> nat" where
  "first_argmax xs = (case xs of [] \<Rightarrow> 0 | x # rest \<Rightarrow> argmax_scan rest 1 0 x)"

text \<open>
  The engine's \<open>plca.SIPLCA.reconstruct(w, z, h)\<close> is external: a parameter
  \<open>reconstruct\<close> of the extractors.

  The loop of \<open>nmf_analysis_to_segmentation\<close> over \<open>zip(np.transpose(W, (1, 0, 2)), Z, H)\<close>:
  one smoothed score curve per pattern.
\<close>

fun segfun_loop ::
  "(array2 \<Rightarrow> real \<Rightarrow> real list \<Rightarrow> array2) \<Rightarrow> int \<Rightarrow> (array2 \<times> real \<times> real list) list
     \<Rightarrow> py_error + real list list" where
  "segfun_loop reconstruct min_segment_length [] = Inr []"
| "segfun_loop reconstruct min_segment_length ((w, z, h) # rest) =
     (case np_ones min_segment_length of
        Inl e \<Rightarrow> Inl e
      | Inr window \<Rightarrow>
          (case np_convolve_same (column_sums (reconstruct w z h)) window of
             Inl e \<Rightarrow> Inl e
           | Inr score \<Rightarrow>
               (case segfun_loop reconstruct min_segment_length rest of
                  Inl e \<Rightarrow> Inl e
                | Inr scores \<Rightarrow> Inr (score # scores))))"

text \<open>
  The matrix \<open>C\<close> of correlation peaks is computed and never read. What the model keeps
  of it is whether it can be computed: \<open>np.correlate(x, y, mode='full')\<close> has
  \<open>len(x) + len(y) - 1\<close> entries, and \<open>.max()\<close> of its slice \<open>[:2*win]\<close> raises ValueError
  when the slice is empty.
\<close>

definition correlation_peaks_defined :: "int \<Rightarrow> real list list \<Rightarrow> bool" where
  "correlation_peaks_defined win segfun =
     list_all (\<lambda>x. list_all (\<lambda>y. 0 < slice_bound (length x + length y - 1) (2 * win)) segfun)
       segfun"

text \<open>
  \<open>np.array(segfun)\<close> needs curves of one length, and \<open>segfun.max()\<close> at least one entry;
  both failures are ValueError. Division by a maximum of zero gives nan or inf in numpy
  and 0 here; the labels depend on the values only through the position of the maximum.
  \<open>seq\<close> is accepted and not read, as in the source.
\<close>

definition nmf_analysis_to_segmentation ::
  "(array2 \<Rightarrow> real \<Rightarrow> real list \<Rightarrow> array2) \<Rightarrow> array2 \<Rightarrow> int \<Rightarrow> array3 \<Rightarrow> real list \<Rightarrow> array2
     \<Rightarrow> int \<Rightarrow> bool \<Rightarrow> py_error + int list \<times> real list list" where
  "nmf_analysis_to_segmentation reconstruct seq win W Z H min_segment_length use_Z_for_segmentation =
     (let Z1 = (if use_Z_for_segmentation then Z else replicate (length Z) 1)
      in case segfun_loop reconstruct min_segment_length
                (zip (map (basis W) [0..<dim1 W]) (zip Z1 (map (row H) [0..<shape0 H]))) of
           Inl e \<Rightarrow> Inl e
         | Inr segfun \<Rightarrow>
             if correlation_peaks_defined win segfun
             then (if segfun = [] then Inl ValueError
                   else if list_all (\<lambda>x. length x = length (hd segfun)) segfun
                   then (let peak = Max (set (concat segfun));
                             segfun1 = map (map (\<lambda>x. x / peak)) segfun;
                             labels = map (\<lambda>t. int (first_argmax (map (\<lambda>x. x ! t) segfun1)))
                                        [0..<length (hd segfun1)]
                         in case remove_short_segments labels min_segment_length of
                              Inl e \<Rightarrow> Inl e
                            | Inr labels1 \<Rightarrow> Inr (labels1, segfun1))
                   else Inl ValueError)
             else Inl ValueError)"

text \<open>
  A stand-in for \<open>reconstruct\<close> with the shape the engine promises (as many rows as the
  basis, as many columns as the activation row), used to run the extractors on concrete
  inputs.
\<close>

definition scripted_reconstruct :: "array2 \<Rightarrow> real \<Rightarrow> real list \<Rightarrow> array2" where
  "scripted_reconstruct w z h = \<lparr>shape0 = shape0 w, shape1 = length h, item = \<lambda>f t. z * h ! t\<rparr>"

text \<open>
  The first loop of \<open>nmf_analysis_to_segmentation_using_viterbi_path\<close>, over the pattern
  indices \<open>z\<close>: \<open>W[:, z]\<close> and \<open>H[z]\<close> raise IndexError past the end of their axis, and the
  assignment \<open>likelihood[z] = \<dots>\<close> into a row of length \<open>T\<close> raises ValueError unless the
  right-hand side has length \<open>T\<close> or length one (which is broadcast).
\<close>

fun likelihood_loop ::
  "(array2 \<Rightarrow> real \<Rightarrow> real list \<Rightarrow> array2) \<Rightarrow> array3 \<Rightarrow> real list \<Rightarrow> array2 \<Rightarrow> nat list
     \<Rightarrow> py_error + real list list" where
  "likelihood_loop reconstruct W Z H [] = Inr []"
| "likelihood_loop reconstruct W Z H (z # rest) =
     (if dim1 W \<le> z then Inl IndexError
      else (case py_index Z (int z) of
              Inl e \<Rightarrow> Inl e
            | Inr weight \<Rightarrow>
                if shape0 H \<le> z then Inl IndexError
                else (let r = column_sums (reconstruct (basis W z) weight (row H z))
                      in if length r = shape1 H
                         then (case likelihood_loop reconstruct W Z H rest of
                                 Inl e \<Rightarrow> Inl e
                               | Inr rows \<Rightarrow> Inr (r # rows))
                         else if length r = 1
                         then (case likelihood_loop reconstruct W Z H rest of
                                 Inl e \<Rightarrow> Inl e
                               | Inr rows \<Rightarrow> Inr (replicate (shape1 H) (hd r) # rows))
                         else Inl ValueError)))"

text \<open>
  \<open>transmat\<close>: the self-loop probability on the diagonal, the remaining mass divided by
  \<open>rank - 1 + eps\<close> elsewhere.
\<close>

definition transmat :: "nat \<Rightarrow> real \<Rightarrow> real list list" where
  "transmat rank selfloopprob =
     map (\<lambda>z. map (\<lambda>y. if y = z then selfloopprob
                        else (1 - selfloopprob) / (real rank - 1 + finfo_eps))
                [0..<rank])
       [0..<rank]"

text \<open>
  The forward pass, for the frames \<open>n\<close> in order. \<open>lattice\<close> and \<open>traceback\<close> are
  \<open>rank \<times> T\<close> arrays held as lists of rows; one pass fills column \<open>n\<close> of both from
  column \<open>n - 1\<close> of the lattice: \<open>pr[i][j] = logtransmat[j][i] + lattice[j][n-1]\<close>.
\<close>

fun viterbi_forward ::
  "real list list \<Rightarrow> real list list \<Rightarrow> nat list \<Rightarrow> real list list \<times> int list list
     \<Rightarrow> real list list \<times> int list list" where
  "viterbi_forward logtransmat loglikelihood [] state = state"
| "viterbi_forward logtransmat loglikelihood (n # rest) state =
     (case state of (lattice, traceback) \<Rightarrow>
        (let pr = map (\<lambda>i. map (\<lambda>j. logtransmat ! j ! i + lattice ! j ! (n - 1))
                           [0..<length lattice])
                    [0..<length lattice];
             lattice1 = map (\<lambda>i. (lattice ! i)[n := Max (set (pr ! i)) + loglikelihood ! i ! n])
                          [0..<length lattice];
             traceback1 = map (\<lambda>i. (traceback ! i)[n := int (first_argmax (pr ! i))])
                            [0..<length lattice]
         in viterbi_forward logtransmat loglikelihood rest (lattice1, traceback1)))"

text \<open>
  The traceback loop \<open>for frame in reversed(traceback.T)\<close>: \<open>frames\<close> are the columns of
  \<open>traceback\<close>, last frame first; the result is \<open>reverse_state_sequence\<close>.
\<close>

fun backtrack :: "int list list \<Rightarrow> int \<Rightarrow> py_error + int list" where
  "backtrack [] s = Inr []"
| "backtrack (frame # rest) s =
     (case py_index frame s of
        Inl e \<Rightarrow> Inl e
      | Inr s1 \<Rightarrow> (case backtrack rest s1 of Inl e \<Rightarrow> Inl e | Inr states \<Rightarrow> Inr (s # states)))"

text \<open>
  \<open>np.log\<close> is a parameter \<open>np_log\<close> of the model. \<open>lattice[0] = loglikelihood[0]\<close> raises
  IndexError for \<open>rank = 0\<close> and \<open>lattice[:, -1]\<close> for \<open>T = 0\<close>.
\<close>

definition nmf_analysis_to_segmentation_using_viterbi_path ::
  "(array2 \<Rightarrow> real \<Rightarrow> real list \<Rightarrow> array2) \<Rightarrow> (real \<Rightarrow> real) \<Rightarrow> array2 \<Rightarrow> int \<Rightarrow> array3
     \<Rightarrow> real list \<Rightarrow> array2 \<Rightarrow> real \<Rightarrow> bool \<Rightarrow> int \<Rightarrow> py_error + int list \<times> real list list" where
  "nmf_analysis_to_segmentation_using_viterbi_path reconstruct np_log seq win W Z H selfloopprob
       use_Z_for_segmentation min_segment_length =
     (let Z1 = (if use_Z_for_segmentation then Z else replicate (length Z) 1);
          rank = length Z1;
          T = shape1 H
      in case likelihood_loop reconstruct W Z1 H [0..<rank] of
           Inl e \<Rightarrow> Inl e
         | Inr likelihood \<Rightarrow>
             (let loglikelihood = map (map np_log) likelihood;
                  logtransmat = map (map np_log) (transmat rank selfloopprob)
              in if rank = 0 then Inl IndexError
                 else (case viterbi_forward logtransmat loglikelihood [1..<T]
                              (loglikelihood ! 0 # replicate (rank - 1) (replicate T 0),
                               replicate rank (replicate T 0)) of
                         (lattice, traceback) \<Rightarrow>
                           if T = 0 then Inl IndexError
                           else (case backtrack
                                        (rev (map (\<lambda>t. map (\<lambda>r. r ! t) traceback) [0..<T]))
                                        (int (first_argmax (map (\<lambda>r. r ! (T - 1)) lattice))) of
                                   Inl e \<Rightarrow> Inl e
                                 | Inr reverse_state_sequence \<Rightarrow>
                                     (case remove_short_segments (rev reverse_state_sequence)
                                             min_segment_length of
                                        Inl e \<Rightarrow> Inl e
                                      | Inr labels \<Rightarrow> Inr (labels, likelihood))))))"

text \<open>Every entry of \<open>xs\<close> is a state index: an integer in \<open>[0, rank)\<close>.\<close>

definition states_in :: "nat \<Rightarrow> int list \<Rightarrow> bool" where
  "states_in rank xs \<longleftrightarrow> (\<forall>x \<in> set xs. 0 \<le> x \<and> x < int rank)"

section \<open>Properties of remove_short_segments\<close>

lemma length_slice_assign: "length (slice_assign xs a b v) = length xs"
  by (simp add: slice_assign_def Let_def)

lemma set_slice_assign: "set (slice_assign xs a b v) \<subseteq> insert v (set xs)"
  by (auto simp: slice_assign_def Let_def)

lemma np_nonzero_bounds: "i \<in> set (np_nonzero bs) \<Longrightarrow> 0 \<le> i \<and> i < int (length bs)"
  by (auto simp: np_nonzero_def)

lemma length_np_diff: "length (np_diff xs) = length xs - 1"
  by (simp add: np_diff_def)

lemma segment_borders_bounds:
  "b \<in> set (segment_borders labels) \<Longrightarrow> 0 \<le> b \<and> b + 1 < int (length labels)"
  using np_nonzero_bounds [of b "map (\<lambda>d. d \<noteq> 0) (np_diff labels)"]
  by (auto simp: segment_borders_def length_np_diff)

lemma short_segments_idx_bounds:
  "i \<in> set (short_segments_idx borders m) \<Longrightarrow> 0 \<le> i \<and> i + 1 < int (length borders)"
  using np_nonzero_bounds [of i "map (\<lambda>d. d < m) (np_diff borders)"]
  by (auto simp: short_segments_idx_def length_np_diff)

lemma py_index_in_range:
  "0 \<le> i \<Longrightarrow> i < int (length xs) \<Longrightarrow> py_index xs i = Inr (xs ! nat i)"
  by (simp add: py_index_def)

lemma py_index_minus_one:
  "xs \<noteq> [] \<Longrightarrow> py_index xs (- 1) = Inr (last xs)"
proof -
  assume ne: "xs \<noteq> []"
  then have len: "0 < length xs" by simp
  then have "nat (int (length xs) + - 1) = length xs - 1"
    by linarith
  moreover have "- int (length xs) \<le> - 1"
    using len by linarith
  ultimately show ?thesis
    using ne by (simp add: py_index_def last_conv_nth)
qed

lemma merge_short_segment_eq:
  assumes idx: "0 \<le> idx" "idx + 1 < int (length borders)"
    and bs: "\<forall>b \<in> set borders. 0 \<le> b \<and> b + 1 < int (length labels)"
  shows "merge_short_segment borders idx labels =
           Inr (slice_assign labels (borders ! nat idx) (borders ! nat (idx + 1) + 1)
                  (if borders ! nat idx = 0 then last labels
                   else labels ! nat (borders ! nat idx - 1)))"
proof -
  have i0: "py_index borders idx = Inr (borders ! nat idx)"
    using idx by (simp add: py_index_in_range)
  have i1: "py_index borders (idx + 1) = Inr (borders ! nat (idx + 1))"
    using idx by (simp add: py_index_in_range)
  have mem: "borders ! nat idx \<in> set borders"
    using idx by (intro nth_mem) auto
  with bs have rng: "0 \<le> borders ! nat idx" "borders ! nat idx + 1 < int (length labels)"
    by auto
  then have ne: "labels \<noteq> []" by auto
  show ?thesis
  proof (cases "borders ! nat idx = 0")
    case True
    then show ?thesis
      using i0 i1 ne by (simp add: merge_short_segment_def py_index_minus_one)
  next
    case False
    with rng have "0 \<le> borders ! nat idx - 1" "borders ! nat idx - 1 < int (length labels)"
      by auto
    then have "py_index labels (borders ! nat idx - 1) = Inr (labels ! nat (borders ! nat idx - 1))"
      by (rule py_index_in_range)
    then show ?thesis
      using i0 i1 False by (simp add: merge_short_segment_def)
  qed
qed

lemma merge_short_segment_keeps:
  assumes idx: "0 \<le> idx" "idx + 1 < int (length borders)"
    and bs: "\<forall>b \<in> set borders. 0 \<le> b \<and> b + 1 < int (length labels)"
  shows "\<exists>out. merge_short_segment borders idx labels = Inr out
           \<and> length out = length labels \<and> set out \<subseteq> set labels"
proof -
  have mem: "borders ! nat idx \<in> set borders"
    using idx by (intro nth_mem) auto
  with bs have rng: "0 \<le> borders ! nat idx" "borders ! nat idx + 1 < int (length labels)"
    by auto
  then have ne: "labels \<noteq> []" by auto
  let ?v = "if borders ! nat idx = 0 then last labels else labels ! nat (borders ! nat idx - 1)"
  have v: "?v \<in> set labels"
    using ne rng by auto
  let ?out = "slice_assign labels (borders ! nat idx) (borders ! nat (idx + 1) + 1) ?v"
  have "set ?out \<subseteq> insert ?v (set labels)"
    by (rule set_slice_assign)
  with v have "set ?out \<subseteq> set labels"
    by blast
  moreover have "length ?out = length labels"
    by (rule length_slice_assign)
  ultimately show ?thesis
    using merge_short_segment_eq [OF idx bs] by blast
qed

lemma merge_loop_keeps:
  assumes "\<forall>i \<in> set idxs. 0 \<le> i \<and> i + 1 < int (length borders)"
    and "\<forall>b \<in> set borders. 0 \<le> b \<and> b + 1 < int (length labels)"
  shows "\<exists>out. merge_loop borders idxs labels = Inr out
           \<and> length out = length labels \<and> set out \<subseteq> set labels"
  using assms
proof (induction idxs arbitrary: labels)
  case Nil
  then show ?case by simp
next
  case (Cons idx rest)
  from Cons.prems obtain l1 where l1: "merge_short_segment borders idx labels = Inr l1"
      "length l1 = length labels" "set l1 \<subseteq> set labels"
    using merge_short_segment_keeps [of idx borders labels] by auto
  have "\<exists>out. merge_loop borders rest l1 = Inr out \<and> length out = length l1 \<and> set out \<subseteq> set l1"
    using Cons.prems l1 by (intro Cons.IH) auto
  then show ?case using l1 by auto
qed

text \<open>
  Claim C10. For every label array and every \<open>min_segment_length\<close>, the call returns
  (no exception escapes), the array keeps its length, and every label of the array after
  the call is a label of the array before it.
\<close>

theorem remove_short_segments_keeps:
  "\<exists>out. remove_short_segments labels m = Inr out
     \<and> length out = length labels \<and> set out \<subseteq> set labels"
  unfolding remove_short_segments_def Let_def
  by (intro merge_loop_keeps ballI short_segments_idx_bounds segment_borders_bounds)

theorem remove_short_segments_keeps_witness:
  "\<exists>out. remove_short_segments [0, 1, 2, 2, 2, 3, 3, 3] 2 = Inr out
     \<and> length out = length [0, 1, 2, 2, 2, 3, 3, 3 :: int]
     \<and> set out \<subseteq> set [0, 1, 2, 2, 2, 3, 3, 3]"
  by (rule remove_short_segments_keeps)

lemma segment_borders_filter:
  "segment_borders labels = map int (filter (is_boundary labels) [0..<length labels - 1])"
proof -
  have "filter (\<lambda>i. map (\<lambda>d. d \<noteq> 0) (np_diff labels) ! i) [0..<length labels - 1]
          = filter (is_boundary labels) [0..<length labels - 1]"
    by (rule filter_cong) (auto simp: np_diff_def is_boundary_def)
  then show ?thesis
    by (simp add: segment_borders_def np_nonzero_def np_diff_def)
qed

lemma strict_sorted_nth_less:
  fixes xs :: "'a::linorder list"
  assumes "sorted_wrt (<) xs" "i < length xs" "j < length xs" "xs ! i < xs ! j"
  shows "i < j"
proof (rule ccontr)
  assume "\<not> i < j"
  then consider "i = j" | "j < i" by fastforce
  then show False
  proof cases
    case 1
    with assms show ?thesis by simp
  next
    case 2
    with assms have "xs ! j < xs ! i"
      by (simp add: sorted_wrt_iff_nth_less)
    with assms show ?thesis by simp
  qed
qed

lemma no_short_span_idx:
  assumes "no_short_span labels m"
  shows "short_segments_idx (segment_borders labels) m = []"
proof -
  let ?fl = "filter (is_boundary labels) [0..<length labels - 1]"
  have srt: "sorted_wrt (<) ?fl"
    by (intro sorted_wrt_filter sorted_wrt_upt)
  have no: "\<not> (map int ?fl ! Suc k - map int ?fl ! k < m)" if k: "Suc k < length ?fl" for k
  proof -
    let ?i = "?fl ! k" and ?j = "?fl ! Suc k"
    have mi: "?i \<in> set ?fl"
      using k by (intro nth_mem) simp
    have mj: "?j \<in> set ?fl"
      using k by (intro nth_mem) simp
    from mi mj
    have bi: "is_boundary labels ?i" and bj: "is_boundary labels ?j"
      by auto
    have lt: "?i < ?j"
      using srt k by (simp add: sorted_wrt_iff_nth_less)
    have between: "\<not> is_boundary labels x" if "x < ?j" "?i < x" for x
    proof
      assume bx: "is_boundary labels x"
      then have "x \<in> set ?fl"
        by (auto simp: is_boundary_def)
      then obtain q where q: "q < length ?fl" "?fl ! q = x"
        unfolding in_set_conv_nth by blast
      have "k < q"
        using strict_sorted_nth_less [OF srt _ q(1), of k] k q(2) that by simp
      moreover have "q < Suc k"
        using strict_sorted_nth_less [OF srt q(1) k] q(2) that by simp
      ultimately show False by simp
    qed
    have "?i < length labels" "?j < length labels"
      using bi bj by (auto simp: is_boundary_def)
    with assms bi bj lt between have "m \<le> int ?j - int ?i"
      unfolding no_short_span_def by blast
    then show ?thesis
      using k by simp
  qed
  have "filter (\<lambda>i. map (\<lambda>d. d < m) (np_diff (map int ?fl)) ! i) [0..<length (np_diff (map int ?fl))] = []"
    unfolding filter_empty_conv
  proof
    fix k assume "k \<in> set [0..<length (np_diff (map int ?fl))]"
    then have k: "Suc k < length ?fl"
      by (simp add: np_diff_def)
    then have "k < length ?fl - 1" by simp
    then have "np_diff (map int ?fl) ! k = map int ?fl ! Suc k - map int ?fl ! k"
      by (simp add: np_diff_def)
    with no [OF k] k show "\<not> map (\<lambda>d. d < m) (np_diff (map int ?fl)) ! k"
      by (simp add: np_diff_def)
  qed
  then show ?thesis
    by (simp add: short_segments_idx_def np_nonzero_def segment_borders_filter)
qed

text \<open>
  Claim C5. On a label sequence that is already compliant for \<open>min_segment_length\<close> (no
  inter-boundary span is shorter), a further call changes nothing: the array it leaves
  is the array it was given, so no new run below the threshold appears.
\<close>

theorem remove_short_segments_compliant_noop:
  "no_short_span labels m \<Longrightarrow> remove_short_segments labels m = Inr labels"
  by (simp add: remove_short_segments_def no_short_span_idx)

theorem remove_short_segments_compliant_noop_witness:
  "no_short_span [0, 0, 1, 1, 1, 0, 0] 3
     \<and> remove_short_segments [0, 0, 1, 1, 1, 0, 0] 3 = Inr [0, 0, 1, 1, 1, 0, 0]"
  using remove_short_segments_compliant_noop [of "[0, 0, 1, 1, 1, 0, 0]" 3]
  by (simp add: no_short_span_def is_boundary_def less_Suc_eq all_conj_distrib)

text \<open>
  Claim C3. The source reads \<open>labels[start - 1]\<close> inside a \<open>try\<close> and falls back to
  \<open>labels[end]\<close> on IndexError. For a short span whose left border is frame 0 the read is
  \<open>labels[-1]\<close>, which Python answers with the last frame of the array, so the fallback
  never runs: below, the span after frame 0 receives the label 3 of the last frame, not
  the label 2 of the frame that follows the span.
\<close>

theorem remove_short_segments_leading_span:
  "remove_short_segments [0, 1, 2, 2, 2, 3, 3, 3] 2 = Inr [3, 3, 2, 2, 2, 3, 3, 3]"
  by code_simp

section \<open>Properties of convert_labels_to_segments\<close>


































section \<open>Properties of create_sparse_W_prior\<close>





section \<open>Properties of the decomposition driver\<close>

lemma nth_state_Suc: "nth_state call s (Suc m) = nth_state call (snd (call s)) m"
  by (simp only: nth_state_def funpow_Suc_right o_apply)

lemma nth_state_add: "nth_state call (nth_state call s a) b = nth_state call s (a + b)"
  by (simp only: nth_state_def funpow_add o_apply add.commute [of a b])

lemma attempt_shift: "attempt call (nth_state call s a) k = attempt call s (a + k)"
  by (simp add: attempt_def nth_state_add)

lemma run_analyses_attempts:
  "run_analyses call n s = (map (attempt call s) [0..<n], nth_state call s n)"
proof (induction n arbitrary: s)
  case 0
  then show ?case by (simp add: nth_state_def)
next
  case (Suc n)
  have "map (attempt call s) [0..<Suc n]
          = attempt call s 0 # map (attempt call (snd (call s))) [0..<n]"
    by (simp add: upt_conv_Cons map_Suc_upt [symmetric] attempt_def nth_state_Suc del: upt_Suc)
  moreover have "attempt call s 0 = fst (call s)"
    by (simp add: attempt_def nth_state_def)
  ultimately show ?case
    using Suc [of "snd (call s)"] by (simp add: case_prod_unfold nth_state_Suc del: upt_Suc)
qed

lemma argmin_scan_first_min:
  assumes "length pre = i" "best < i" "v = pre ! best"
    and "\<forall>j<i. v \<le> pre ! j" and "\<forall>j<best. v < pre ! j"
  shows "argmin_scan xs i best v < i + length xs
       \<and> (\<forall>j<i + length xs. (pre @ xs) ! argmin_scan xs i best v \<le> (pre @ xs) ! j)
       \<and> (\<forall>j<argmin_scan xs i best v. (pre @ xs) ! argmin_scan xs i best v < (pre @ xs) ! j)"
  using assms
proof (induction xs arbitrary: pre i best v)
  case Nil
  then show ?case by simp
next
  case (Cons x xs)
  show ?case
  proof (cases "x < v")
    case True
    have "argmin_scan xs (Suc i) i x < Suc i + length xs
       \<and> (\<forall>j<Suc i + length xs. ((pre @ [x]) @ xs) ! argmin_scan xs (Suc i) i x \<le> ((pre @ [x]) @ xs) ! j)
       \<and> (\<forall>j<argmin_scan xs (Suc i) i x. ((pre @ [x]) @ xs) ! argmin_scan xs (Suc i) i x < ((pre @ [x]) @ xs) ! j)"
    proof (rule Cons.IH)
      show "length (pre @ [x]) = Suc i" using Cons.prems by simp
      show "i < Suc i" by simp
      show "x = (pre @ [x]) ! i" using Cons.prems(1) by (metis nth_append_length)
      show "\<forall>j<Suc i. x \<le> (pre @ [x]) ! j"
        using Cons.prems True by (auto simp: nth_append less_Suc_eq)
      show "\<forall>j<i. x < (pre @ [x]) ! j"
        using Cons.prems True by (auto simp: nth_append)
    qed
    with True show ?thesis by simp
  next
    case False
    have "argmin_scan xs (Suc i) best v < Suc i + length xs
       \<and> (\<forall>j<Suc i + length xs. ((pre @ [x]) @ xs) ! argmin_scan xs (Suc i) best v \<le> ((pre @ [x]) @ xs) ! j)
       \<and> (\<forall>j<argmin_scan xs (Suc i) best v. ((pre @ [x]) @ xs) ! argmin_scan xs (Suc i) best v < ((pre @ [x]) @ xs) ! j)"
    proof (rule Cons.IH)
      show "length (pre @ [x]) = Suc i" using Cons.prems by simp
      show "best < Suc i" using Cons.prems by simp
      show "v = (pre @ [x]) ! best" using Cons.prems by (simp add: nth_append)
      show "\<forall>j<Suc i. v \<le> (pre @ [x]) ! j"
        using Cons.prems False by (auto simp: nth_append less_Suc_eq)
      show "\<forall>j<best. v < (pre @ [x]) ! j"
        using Cons.prems by (auto simp: nth_append)
    qed
    with False show ?thesis by simp
  qed
qed

lemma np_argmin_first_min:
  assumes "xs \<noteq> []"
  shows "\<exists>k. np_argmin xs = Inr k \<and> k < length xs
           \<and> (\<forall>j<length xs. xs ! k \<le> xs ! j) \<and> (\<forall>j<k. xs ! k < xs ! j)"
proof -
  from assms obtain x rest where xs: "xs = x # rest"
    by (cases xs) auto
  have "argmin_scan rest 1 0 x < 1 + length rest
       \<and> (\<forall>j<1 + length rest. ([x] @ rest) ! argmin_scan rest 1 0 x \<le> ([x] @ rest) ! j)
       \<and> (\<forall>j<argmin_scan rest 1 0 x. ([x] @ rest) ! argmin_scan rest 1 0 x < ([x] @ rest) ! j)"
    by (rule argmin_scan_first_min) simp_all
  then show ?thesis
    by (simp add: np_argmin_def xs)
qed

lemma analysis_round_first_min:
  assumes "1 \<le> nrep"
  shows "\<exists>k<nat nrep. analysis_round call nrep s = Inr (attempt call s k, nth_state call s (nat nrep))
           \<and> (\<forall>j<nat nrep. d_div (attempt call s k) \<le> d_div (attempt call s j))
           \<and> (\<forall>j<k. d_div (attempt call s k) < d_div (attempt call s j))"
proof -
  let ?outs = "map (attempt call s) [0..<nat nrep]"
  have ne: "map d_div ?outs \<noteq> []"
    using assms by simp
  obtain k where k: "np_argmin (map d_div ?outs) = Inr k" "k < length (map d_div ?outs)"
      "\<forall>j<length (map d_div ?outs). map d_div ?outs ! k \<le> map d_div ?outs ! j"
      "\<forall>j<k. map d_div ?outs ! k < map d_div ?outs ! j"
    using np_argmin_first_min [OF ne] by blast
  have kn: "k < nat nrep"
    using k(2) by simp
  have "length ?outs = nat nrep"
    by simp
  with kn have "int k < int (length ?outs)"
    by linarith
  then have "py_index ?outs (int k) = Inr (?outs ! nat (int k))"
    by (intro py_index_in_range) simp_all
  then have sel: "select_best ?outs = Inr (attempt call s k)"
    using k(1) kn by (simp add: select_best_def)
  have "analysis_round call nrep s = Inr (attempt call s k, nth_state call s (nat nrep))"
    by (simp add: analysis_round_def run_analyses_attempts sel)
  moreover have "\<forall>j<nat nrep. d_div (attempt call s k) \<le> d_div (attempt call s j)"
    using k(3) kn by simp
  moreover have "\<forall>j<k. d_div (attempt call s k) < d_div (attempt call s j)"
    using k(4) kn by simp
  ultimately show ?thesis
    using kn by blast
qed


lemma analysis_round_choice:
  assumes "1 \<le> nrep"
  shows "analysis_round call nrep (nth_state call s (i * nat nrep))
           = Inr (round_choice call nrep s i, nth_state call s (Suc i * nat nrep))"
proof -
  obtain k where "analysis_round call nrep (nth_state call s (i * nat nrep))
      = Inr (attempt call (nth_state call s (i * nat nrep)) k,
             nth_state call (nth_state call s (i * nat nrep)) (nat nrep))"
    using analysis_round_first_min [OF assms, of call "nth_state call s (i * nat nrep)"] by blast
  then show ?thesis
    by (simp add: round_choice_def nth_state_add add.commute)
qed

lemma round_choice_first_min:
  assumes "1 \<le> nrep"
  shows "\<exists>k<nat nrep. round_choice call nrep s i = attempt call s (i * nat nrep + k)
           \<and> (\<forall>j<nat nrep. d_div (attempt call s (i * nat nrep + k))
                              \<le> d_div (attempt call s (i * nat nrep + j)))
           \<and> (\<forall>j<k. d_div (attempt call s (i * nat nrep + k))
                        < d_div (attempt call s (i * nat nrep + j)))"
proof -
  obtain k where k: "k < nat nrep"
    "analysis_round call nrep (nth_state call s (i * nat nrep))
      = Inr (attempt call (nth_state call s (i * nat nrep)) k,
             nth_state call (nth_state call s (i * nat nrep)) (nat nrep))"
    "\<forall>j<nat nrep. d_div (attempt call (nth_state call s (i * nat nrep)) k)
                     \<le> d_div (attempt call (nth_state call s (i * nat nrep)) j)"
    "\<forall>j<k. d_div (attempt call (nth_state call s (i * nat nrep)) k)
               < d_div (attempt call (nth_state call s (i * nat nrep)) j)"
    using analysis_round_first_min [OF assms, of call "nth_state call s (i * nat nrep)"] by blast
  have "round_choice call nrep s i = attempt call s (i * nat nrep + k)"
    by (simp add: round_choice_def k(2) attempt_shift)
  with k(1,3,4) show ?thesis
    unfolding attempt_shift by blast
qed

lemma retry_loop_rounds:
  assumes "1 \<le> nrep"
  shows "\<exists>r. i \<le> r \<and> r \<le> i + nat m
           \<and> retry_loop call nrep ms thr lowen m (round_choice call nrep s i)
                 (nth_state call s (Suc i * nat nrep))
               = Inr (round_choice call nrep s r, nth_state call s (Suc r * nat nrep))
           \<and> (\<forall>j. i \<le> j \<and> j < r \<longrightarrow> gate_fails ms thr lowen (round_choice call nrep s j))
           \<and> (r < i + nat m \<longrightarrow> \<not> gate_fails ms thr lowen (round_choice call nrep s r))"
proof (induction "nat m" arbitrary: m i)
  case 0
  then have "\<not> m > 0" by simp
  then have "retry_loop call nrep ms thr lowen m (round_choice call nrep s i)
                 (nth_state call s (Suc i * nat nrep))
               = Inr (round_choice call nrep s i, nth_state call s (Suc i * nat nrep))"
    by (subst retry_loop.simps) simp
  with 0 show ?case
    by (intro exI [of _ i]) auto
next
  case (Suc n)
  then have pos: "m > 0" and n: "n = nat (m - 1)"
    by linarith+
  show ?case
  proof (cases "gate_fails ms thr lowen (round_choice call nrep s i)")
    case False
    then have "retry_loop call nrep ms thr lowen m (round_choice call nrep s i)
                 (nth_state call s (Suc i * nat nrep))
               = Inr (round_choice call nrep s i, nth_state call s (Suc i * nat nrep))"
      by (subst retry_loop.simps) simp
    with False show ?thesis
      by (intro exI [of _ i]) auto
  next
    case True
    have step: "retry_loop call nrep ms thr lowen m (round_choice call nrep s i)
                 (nth_state call s (Suc i * nat nrep))
               = retry_loop call nrep ms thr lowen (m - 1) (round_choice call nrep s (Suc i))
                 (nth_state call s (Suc (Suc i) * nat nrep))"
      using True pos analysis_round_choice [OF assms, of call s "Suc i"]
      by (subst retry_loop.simps) simp
    obtain r where r: "Suc i \<le> r" "r \<le> Suc i + nat (m - 1)"
      "retry_loop call nrep ms thr lowen (m - 1) (round_choice call nrep s (Suc i))
                 (nth_state call s (Suc (Suc i) * nat nrep))
               = Inr (round_choice call nrep s r, nth_state call s (Suc r * nat nrep))"
      "\<forall>j. Suc i \<le> j \<and> j < r \<longrightarrow> gate_fails ms thr lowen (round_choice call nrep s j)"
      "r < Suc i + nat (m - 1) \<longrightarrow> \<not> gate_fails ms thr lowen (round_choice call nrep s r)"
      using Suc.hyps(1) [OF n, of "Suc i"] by blast
    have fails: "\<forall>j. i \<le> j \<and> j < r \<longrightarrow> gate_fails ms thr lowen (round_choice call nrep s j)"
    proof (intro allI impI)
      fix j assume "i \<le> j \<and> j < r"
      then consider "j = i" | "Suc i \<le> j \<and> j < r" by linarith
      then show "gate_fails ms thr lowen (round_choice call nrep s j)"
        using True r(4) by cases auto
    qed
    have "Suc i + nat (m - 1) = i + nat m"
      using pos by linarith
    with r fails step show ?thesis
      by (intro exI [of _ r]) auto
  qed
qed

lemma segment_song_decomposition_rounds:
  fixes analyze :: "'k analyze_args \<Rightarrow> 's \<Rightarrow> ('w, 'h) decomposition \<times> 's"
    and seq :: array2 and rank win maxlowen :: int and kwargs :: 'k
  assumes "1 \<le> nrep"
  defines "call \<equiv> analyze \<lparr>a_seq = seq, a_rank = rank, a_win = win, a_kwargs = kwargs\<rparr>"
  defines "thr \<equiv> effective_maxlowen seq maxlowen"
  defines "lowen \<equiv> real (shape0 seq) * finfo_eps"
  shows "\<exists>r\<le>nat maxretries.
           segment_song_decomposition analyze seq rank win nrep minsegments maxlowen maxretries kwargs s
             = Inr (round_choice call nrep s r, nth_state call s (Suc r * nat nrep))
           \<and> (\<forall>j<r. gate_fails minsegments thr lowen (round_choice call nrep s j))
           \<and> (r < nat maxretries \<longrightarrow> \<not> gate_fails minsegments thr lowen (round_choice call nrep s r))"
proof -
  have first: "analysis_round call nrep s = Inr (round_choice call nrep s 0, nth_state call s (Suc 0 * nat nrep))"
    using analysis_round_choice [OF assms(1), of call s 0] by (simp add: nth_state_def)
  obtain r where r: "r \<le> 0 + nat maxretries"
    "retry_loop call nrep minsegments thr lowen maxretries (round_choice call nrep s 0)
        (nth_state call s (Suc 0 * nat nrep))
      = Inr (round_choice call nrep s r, nth_state call s (Suc r * nat nrep))"
    "\<forall>j. 0 \<le> j \<and> j < r \<longrightarrow> gate_fails minsegments thr lowen (round_choice call nrep s j)"
    "r < 0 + nat maxretries \<longrightarrow> \<not> gate_fails minsegments thr lowen (round_choice call nrep s r)"
    using retry_loop_rounds [OF assms(1), of 0 maxretries call minsegments thr lowen s] by blast
  have "segment_song_decomposition analyze seq rank win nrep minsegments maxlowen maxretries kwargs s
          = Inr (round_choice call nrep s r, nth_state call s (Suc r * nat nrep))"
    unfolding segment_song_decomposition_def Let_def call_def [symmetric] first
    using r(2) by (simp add: thr_def lowen_def)
  with r show ?thesis
    by (intro exI [of _ r]) simp
qed

lemmas driver_eval =
  segment_song_decomposition_def analysis_round_def select_best_def np_argmin_def
  py_index_def scripted_analyze_def retry_loop.simps gate_fails_def effective_maxlowen_def
  low_energy_frames_def column_sums_def finfo_eps_def eval_nat_numeral upt_conv_Cons

text \<open>
  Claim C1. For \<open>nrep \<ge> 1\<close> the driver returns, for some round \<open>r\<close> within the retry
  budget, one of the \<open>nrep\<close> attempts of that round (every attempt is a call of the
  engine with the same sequence, rank, window and options, on the random state the
  previous call left); its final divergence is least among the attempts of the round,
  and strictly less than that of every earlier attempt of the round, so a tie goes to
  the attempt met first.
\<close>

theorem segment_song_best_of_nrep:
  fixes analyze :: "'k analyze_args \<Rightarrow> 's \<Rightarrow> ('w, 'h) decomposition \<times> 's"
    and seq :: array2 and rank win :: int and kwargs :: 'k
  assumes "1 \<le> nrep"
  defines "call \<equiv> analyze \<lparr>a_seq = seq, a_rank = rank, a_win = win, a_kwargs = kwargs\<rparr>"
  shows "\<exists>r k. r \<le> nat maxretries \<and> k < nat nrep
           \<and> segment_song_decomposition analyze seq rank win nrep minsegments maxlowen maxretries kwargs s
               = Inr (attempt call s (r * nat nrep + k), nth_state call s (Suc r * nat nrep))
           \<and> (\<forall>j<nat nrep. d_div (attempt call s (r * nat nrep + k))
                              \<le> d_div (attempt call s (r * nat nrep + j)))
           \<and> (\<forall>j<k. d_div (attempt call s (r * nat nrep + k))
                        < d_div (attempt call s (r * nat nrep + j)))"
proof -
  obtain r where r: "r \<le> nat maxretries"
    "segment_song_decomposition analyze seq rank win nrep minsegments maxlowen maxretries kwargs s
       = Inr (round_choice call nrep s r, nth_state call s (Suc r * nat nrep))"
    using segment_song_decomposition_rounds [OF assms(1), where analyze = analyze and seq = seq
        and rank = rank and win = win and kwargs = kwargs and maxretries = maxretries
        and minsegments = minsegments and maxlowen = maxlowen and s = s]
    unfolding call_def by blast
  obtain k where k: "k < nat nrep"
    "round_choice call nrep s r = attempt call s (r * nat nrep + k)"
    "\<forall>j<nat nrep. d_div (attempt call s (r * nat nrep + k)) \<le> d_div (attempt call s (r * nat nrep + j))"
    "\<forall>j<k. d_div (attempt call s (r * nat nrep + k)) < d_div (attempt call s (r * nat nrep + j))"
    using round_choice_first_min [OF assms(1), of call s r] by blast
  from r k show ?thesis
    by (intro exI [of _ r] exI [of _ k]) simp
qed

theorem segment_song_best_of_nrep_witness:
  "(1 :: int) \<le> 3
   \<and> segment_song_decomposition (scripted_analyze [(5, 3), (2, 3), (9, 3)])
        \<lparr>shape0 = 1, shape1 = 3, item = \<lambda>f t. 1\<rparr> 4 32 3 3 10 5 () 0
      = Inr (\<lparr>d_W = (), d_Z = [1, 1, 1], d_H = (), d_norm = 1,
              d_recon = \<lparr>shape0 = 1, shape1 = 3, item = \<lambda>f t. 1\<rparr>, d_div = 2\<rparr>, 3)"
proof -
  have h: "(1 :: int) \<le> 3" by simp
  have run: "segment_song_decomposition (scripted_analyze [(5, 3), (2, 3), (9, 3)])
        \<lparr>shape0 = 1, shape1 = 3, item = \<lambda>f t. 1\<rparr> 4 32 3 3 10 5 () 0
      = Inr (\<lparr>d_W = (), d_Z = [1, 1, 1], d_H = (), d_norm = 1,
              d_recon = \<lparr>shape0 = 1, shape1 = 3, item = \<lambda>f t. 1\<rparr>, d_div = 2\<rparr>, 3)"
    by (simp add: driver_eval)
  from segment_song_best_of_nrep [OF h, where analyze = "scripted_analyze [(5, 3), (2, 3), (9, 3)]"
      and seq = "\<lparr>shape0 = 1, shape1 = 3, item = \<lambda>f t. 1\<rparr>" and rank = 4 and win = 32
      and kwargs = "()" and maxretries = 5 and minsegments = 3 and maxlowen = 10 and s = 0]
    h run
  show ?thesis by simp
qed

text \<open>
  Claim C2. With \<open>nrep < 1\<close> there is no attempt to select from and the first
  \<open>np.argmin\<close> raises ValueError, before any gate is evaluated. For \<open>nrep \<ge> 1\<close> the
  driver never raises. It returns the choice of some round
  \<open>r \<le> maxretries\<close>, having made \<open>(r + 1) * nrep\<close> engine calls: every earlier round
  failed the quality gate (too few mixing weights, or more low-energy frames in the
  reconstruction than the effective threshold) and cost one retry, and round \<open>r\<close> either
  passes the gate or is the round at which the \<open>maxretries\<close> retries are used up, whose
  choice is returned whether or not it passes.
\<close>

theorem segment_song_retry_budget:
  fixes analyze :: "'k analyze_args \<Rightarrow> 's \<Rightarrow> ('w, 'h) decomposition \<times> 's"
    and seq :: array2 and rank win maxlowen :: int and kwargs :: 'k
  defines "call \<equiv> analyze \<lparr>a_seq = seq, a_rank = rank, a_win = win, a_kwargs = kwargs\<rparr>"
  defines "thr \<equiv> effective_maxlowen seq maxlowen"
  defines "lowen \<equiv> real (shape0 seq) * finfo_eps"
  shows "(nrep < 1 \<longrightarrow>
            segment_song_decomposition analyze seq rank win nrep minsegments maxlowen maxretries kwargs s
              = Inl ValueError)
       \<and> (1 \<le> nrep \<longrightarrow>
            (\<exists>r\<le>nat maxretries.
               segment_song_decomposition analyze seq rank win nrep minsegments maxlowen maxretries kwargs s
                 = Inr (round_choice call nrep s r, nth_state call s (Suc r * nat nrep))
               \<and> (\<forall>j<r. gate_fails minsegments thr lowen (round_choice call nrep s j))
               \<and> (r < nat maxretries
                     \<longrightarrow> \<not> gate_fails minsegments thr lowen (round_choice call nrep s r))))"
proof (intro conjI impI)
  assume "nrep < 1"
  then have "nat nrep = 0"
    by simp
  then have "analysis_round call nrep s = Inl ValueError"
    by (simp add: analysis_round_def select_best_def np_argmin_def)
  then show "segment_song_decomposition analyze seq rank win nrep minsegments maxlowen maxretries kwargs s
               = Inl ValueError"
    by (simp add: segment_song_decomposition_def call_def)
next
  assume "1 \<le> nrep"
  then show "\<exists>r\<le>nat maxretries.
               segment_song_decomposition analyze seq rank win nrep minsegments maxlowen maxretries kwargs s
                 = Inr (round_choice call nrep s r, nth_state call s (Suc r * nat nrep))
               \<and> (\<forall>j<r. gate_fails minsegments thr lowen (round_choice call nrep s j))
               \<and> (r < nat maxretries
                     \<longrightarrow> \<not> gate_fails minsegments thr lowen (round_choice call nrep s r))"
    unfolding call_def thr_def lowen_def
    by (rule segment_song_decomposition_rounds)
qed

theorem segment_song_retry_budget_witness:
  "(1 :: int) \<le> 1
   \<and> segment_song_decomposition (scripted_analyze [(5, 1), (4, 3)])
        \<lparr>shape0 = 1, shape1 = 3, item = \<lambda>f t. 1\<rparr> 4 32 1 3 10 5 () 0
      = Inr (\<lparr>d_W = (), d_Z = [1, 1, 1], d_H = (), d_norm = 1,
              d_recon = \<lparr>shape0 = 1, shape1 = 3, item = \<lambda>f t. 1\<rparr>, d_div = 4\<rparr>, 2)
   \<and> segment_song_decomposition (scripted_analyze [(5, 1), (4, 1), (3, 1)])
        \<lparr>shape0 = 1, shape1 = 3, item = \<lambda>f t. 1\<rparr> 4 32 1 3 10 2 () 0
      = Inr (\<lparr>d_W = (), d_Z = [1], d_H = (), d_norm = 1,
              d_recon = \<lparr>shape0 = 1, shape1 = 3, item = \<lambda>f t. 1\<rparr>, d_div = 3\<rparr>, 3)"
proof -
  have h: "(1 :: int) \<le> 1" by simp
  have run1: "segment_song_decomposition (scripted_analyze [(5, 1), (4, 3)])
        \<lparr>shape0 = 1, shape1 = 3, item = \<lambda>f t. 1\<rparr> 4 32 1 3 10 5 () 0
      = Inr (\<lparr>d_W = (), d_Z = [1, 1, 1], d_H = (), d_norm = 1,
              d_recon = \<lparr>shape0 = 1, shape1 = 3, item = \<lambda>f t. 1\<rparr>, d_div = 4\<rparr>, 2)"
    by (simp add: driver_eval)
  have run2: "segment_song_decomposition (scripted_analyze [(5, 1), (4, 1), (3, 1)])
        \<lparr>shape0 = 1, shape1 = 3, item = \<lambda>f t. 1\<rparr> 4 32 1 3 10 2 () 0
      = Inr (\<lparr>d_W = (), d_Z = [1], d_H = (), d_norm = 1,
              d_recon = \<lparr>shape0 = 1, shape1 = 3, item = \<lambda>f t. 1\<rparr>, d_div = 3\<rparr>, 3)"
    by (simp add: driver_eval)
  from segment_song_retry_budget [where nrep = 1 and analyze = "scripted_analyze [(5, 1), (4, 3)]"
      and seq = "\<lparr>shape0 = 1, shape1 = 3, item = \<lambda>f t. 1\<rparr>" and rank = 4 and win = 32
      and kwargs = "()" and maxretries = 5 and minsegments = 3 and maxlowen = 10 and s = 0]
    h run1 run2
  show ?thesis by simp
qed

text \<open>
  Claim C8. When the working sequence has more low-energy frames than \<open>maxlowen\<close>, the
  quality gate works with that number of frames as its threshold, and with no other: every
  round the driver rejects had too few mixing weights or reconstructed strictly more
  low-energy frames than the sequence itself has, and the round it accepts before the
  retries are used up has enough mixing weights and reconstructs no more low-energy frames
  than the sequence has. So no round is retried for frames already degenerate in the input.
\<close>

theorem segment_song_threshold_raised:
  fixes analyze :: "'k analyze_args \<Rightarrow> 's \<Rightarrow> ('w, 'h) decomposition \<times> 's"
    and seq :: array2 and rank win maxlowen :: int and kwargs :: 'k
  defines "call \<equiv> analyze \<lparr>a_seq = seq, a_rank = rank, a_win = win, a_kwargs = kwargs\<rparr>"
  defines "lowen \<equiv> real (shape0 seq) * finfo_eps"
  assumes "1 \<le> nrep" and above: "maxlowen < low_energy_frames seq lowen"
  shows "\<exists>r\<le>nat maxretries.
           segment_song_decomposition analyze seq rank win nrep minsegments maxlowen maxretries kwargs s
             = Inr (round_choice call nrep s r, nth_state call s (Suc r * nat nrep))
           \<and> (\<forall>j<r. int (length (d_Z (round_choice call nrep s j))) < minsegments
                    \<or> low_energy_frames seq lowen
                        < low_energy_frames (d_recon (round_choice call nrep s j)) lowen)
           \<and> (r < nat maxretries \<longrightarrow>
                 minsegments \<le> int (length (d_Z (round_choice call nrep s r)))
                 \<and> low_energy_frames (d_recon (round_choice call nrep s r)) lowen
                      \<le> low_energy_frames seq lowen)"
proof -
  have eff: "effective_maxlowen seq maxlowen = low_energy_frames seq lowen"
    using above by (simp add: effective_maxlowen_def lowen_def)
  obtain r where r: "r \<le> nat maxretries"
    "segment_song_decomposition analyze seq rank win nrep minsegments maxlowen maxretries kwargs s
       = Inr (round_choice call nrep s r, nth_state call s (Suc r * nat nrep))"
    "\<forall>j<r. gate_fails minsegments (effective_maxlowen seq maxlowen) lowen (round_choice call nrep s j)"
    "r < nat maxretries
       \<longrightarrow> \<not> gate_fails minsegments (effective_maxlowen seq maxlowen) lowen (round_choice call nrep s r)"
    using segment_song_decomposition_rounds [OF assms(3), where analyze = analyze and seq = seq
        and rank = rank and win = win and kwargs = kwargs and maxretries = maxretries
        and minsegments = minsegments and maxlowen = maxlowen and s = s]
    unfolding call_def lowen_def by blast
  from r(3) have rejected: "\<forall>j<r. int (length (d_Z (round_choice call nrep s j))) < minsegments
                     \<or> low_energy_frames seq lowen
                         < low_energy_frames (d_recon (round_choice call nrep s j)) lowen"
    unfolding eff gate_fails_def by simp
  from r(4) have accepted: "r < nat maxretries \<longrightarrow>
                 minsegments \<le> int (length (d_Z (round_choice call nrep s r)))
                 \<and> low_energy_frames (d_recon (round_choice call nrep s r)) lowen
                      \<le> low_energy_frames seq lowen"
    unfolding eff gate_fails_def by auto
  from r(1,2) rejected accepted show ?thesis
    by blast
qed

text \<open>
  A run of the raised threshold: the sequence has three low-energy frames against
  \<open>maxlowen = 1\<close>; the first round reconstructs four and is rejected, the second
  reconstructs three and is accepted, although three exceeds \<open>maxlowen\<close>.
\<close>

theorem segment_song_threshold_raised_witness:
  "(1 :: int) \<le> 1
   \<and> 1 < low_energy_frames \<lparr>shape0 = 1, shape1 = 3, item = \<lambda>f t. 0\<rparr> (real 1 * finfo_eps)
   \<and> segment_song_decomposition
        (recon_analyze [(5, 3, \<lparr>shape0 = 1, shape1 = 4, item = \<lambda>f t. 0\<rparr>),
                        (7, 3, \<lparr>shape0 = 1, shape1 = 3, item = \<lambda>f t. 0\<rparr>)])
        \<lparr>shape0 = 1, shape1 = 3, item = \<lambda>f t. 0\<rparr> 4 32 1 3 1 5 () 0
      = Inr (\<lparr>d_W = (), d_Z = [1, 1, 1], d_H = (), d_norm = 1,
              d_recon = \<lparr>shape0 = 1, shape1 = 3, item = \<lambda>f t. 0\<rparr>, d_div = 7\<rparr>, 2)"
proof -
  have h: "(1 :: int) \<le> 1" by simp
  have above: "1 < low_energy_frames \<lparr>shape0 = 1, shape1 = 3, item = \<lambda>f t. 0\<rparr>
                    (real (shape0 \<lparr>shape0 = 1, shape1 = 3, item = \<lambda>f t. 0\<rparr>) * finfo_eps)"
    by (simp add: driver_eval)
  have run: "segment_song_decomposition
        (recon_analyze [(5, 3, \<lparr>shape0 = 1, shape1 = 4, item = \<lambda>f t. 0\<rparr>),
                        (7, 3, \<lparr>shape0 = 1, shape1 = 3, item = \<lambda>f t. 0\<rparr>)])
        \<lparr>shape0 = 1, shape1 = 3, item = \<lambda>f t. 0\<rparr> 4 32 1 3 1 5 () 0
      = Inr (\<lparr>d_W = (), d_Z = [1, 1, 1], d_H = (), d_norm = 1,
              d_recon = \<lparr>shape0 = 1, shape1 = 3, item = \<lambda>f t. 0\<rparr>, d_div = 7\<rparr>, 2)"
    by (simp add: driver_eval recon_analyze_def)
  from segment_song_threshold_raised [OF h above, where
      analyze = "recon_analyze [(5, 3, \<lparr>shape0 = 1, shape1 = 4, item = \<lambda>f t. 0\<rparr>),
                                (7, 3, \<lparr>shape0 = 1, shape1 = 3, item = \<lambda>f t. 0\<rparr>)]"
      and rank = 4 and win = 32 and kwargs = "()" and maxretries = 5 and minsegments = 3 and s = 0]
    h above run
  show ?thesis by (simp add: driver_eval)
qed

section \<open>Properties of the segmentation extractors\<close>

lemma argmax_scan_bound: "best < i \<Longrightarrow> argmax_scan xs i best v < i + length xs"
proof (induction xs arbitrary: i best v)
  case Nil
  then show ?case by simp
next
  case (Cons x xs)
  have "argmax_scan xs (Suc i) i x < Suc i + length xs"
    by (rule Cons.IH) simp
  moreover have "argmax_scan xs (Suc i) best v < Suc i + length xs"
    using Cons.prems by (intro Cons.IH) simp
  ultimately show ?case by simp
qed

lemma first_argmax_bound: "xs \<noteq> [] \<Longrightarrow> first_argmax xs < length xs"
  using argmax_scan_bound [of 0 1 "tl xs" "hd xs"]
  by (cases xs) (simp_all add: first_argmax_def)


lemma viterbi_forward_invariant:
  assumes "length lattice = rank" "0 < rank" "length traceback = rank"
    and "\<forall>r \<in> set traceback. length r = T \<and> states_in rank r"
  shows "\<exists>lattice1 traceback1.
           viterbi_forward logtransmat loglikelihood ns (lattice, traceback) = (lattice1, traceback1)
           \<and> length lattice1 = rank \<and> length traceback1 = rank
           \<and> (\<forall>r \<in> set traceback1. length r = T \<and> states_in rank r)"
  using assms
proof (induction ns arbitrary: lattice traceback)
  case Nil
  then show ?case by simp
next
  case (Cons n ns)
  define pr where "pr = map (\<lambda>i. map (\<lambda>j. logtransmat ! j ! i + lattice ! j ! (n - 1))
                           [0..<length lattice]) [0..<length lattice]"
  define lattice1 where "lattice1 = map (\<lambda>i. (lattice ! i)[n := Max (set (pr ! i)) + loglikelihood ! i ! n])
                          [0..<length lattice]"
  define traceback1 where "traceback1 = map (\<lambda>i. (traceback ! i)[n := int (first_argmax (pr ! i))])
                            [0..<length lattice]"
  have step: "viterbi_forward logtransmat loglikelihood (n # ns) (lattice, traceback)
                = viterbi_forward logtransmat loglikelihood ns (lattice1, traceback1)"
    by (simp add: pr_def lattice1_def traceback1_def Let_def)
  have l1: "length lattice1 = rank" and t1: "length traceback1 = rank"
    using Cons.prems by (simp_all add: lattice1_def traceback1_def)
  have rows: "\<forall>r \<in> set traceback1. length r = T \<and> states_in rank r"
  proof
    fix r assume "r \<in> set traceback1"
    then obtain i where i: "i < rank" and r: "r = (traceback ! i)[n := int (first_argmax (pr ! i))]"
      using Cons.prems(1) by (auto simp: traceback1_def)
    have old: "length (traceback ! i) = T" "states_in rank (traceback ! i)"
      using Cons.prems(3,4) i by (auto simp: all_set_conv_all_nth)
    have "pr ! i \<noteq> []"
      using i Cons.prems(1,2) by (simp add: pr_def)
    moreover have "length (pr ! i) = rank"
      using i Cons.prems(1) by (simp add: pr_def)
    ultimately have v: "first_argmax (pr ! i) < rank"
      using first_argmax_bound [of "pr ! i"] by simp
    have "set r \<subseteq> insert (int (first_argmax (pr ! i))) (set (traceback ! i))"
      unfolding r by (rule set_update_subset_insert)
    with old(2) v have "states_in rank r"
      unfolding states_in_def by auto
    with old(1) show "length r = T \<and> states_in rank r"
      by (simp add: r)
  qed
  show ?case
    unfolding step using Cons.IH [OF l1 Cons.prems(2) t1 rows] .
qed

lemma backtrack_states:
  assumes "\<forall>frame \<in> set frames. length frame = rank \<and> states_in rank frame"
    and "0 \<le> s" "s < int rank"
  shows "\<exists>states. backtrack frames s = Inr states \<and> length states = length frames
           \<and> states_in rank states"
  using assms
proof (induction frames arbitrary: s)
  case Nil
  then show ?case by (simp add: states_in_def)
next
  case (Cons frame frames)
  have fr: "length frame = rank" "states_in rank frame"
    using Cons.prems(1) by simp_all
  then have idx: "py_index frame s = Inr (frame ! nat s)"
    using Cons.prems(2,3) by (intro py_index_in_range) simp_all
  have "frame ! nat s \<in> set frame"
    using fr(1) Cons.prems(2,3) by (intro nth_mem) linarith
  with fr(2) have nxt: "0 \<le> frame ! nat s" "frame ! nat s < int rank"
    by (auto simp: states_in_def)
  obtain states where st: "backtrack frames (frame ! nat s) = Inr states"
      "length states = length frames" "states_in rank states"
    using Cons.IH [OF _ nxt] Cons.prems(1) by auto
  show ?case
    using idx st Cons.prems(2,3) by (simp add: states_in_def)
qed

lemma length_column_sums: "length (column_sums a) = shape1 a"
  by (simp add: column_sums_def)

lemma length_row: "length (row a k) = shape1 a"
  by (simp add: row_def)

lemma likelihood_loop_total:
  assumes "\<forall>z \<in> set zs. z < dim1 W \<and> z < length Z \<and> z < shape0 H"
    and "\<forall>w z h. shape1 (reconstruct w z h) = length h"
  shows "\<exists>rows. likelihood_loop reconstruct W Z H zs = Inr rows"
  using assms(1)
proof (induction zs)
  case Nil
  then show ?case by simp
next
  case (Cons z zs)
  then obtain rows where rows: "likelihood_loop reconstruct W Z H zs = Inr rows"
    by auto
  have z: "z < dim1 W" "z < length Z" "z < shape0 H"
    using Cons.prems by simp_all
  have "int z < int (length Z)"
    using z(2) by simp
  then have idx: "py_index Z (int z) = Inr (Z ! z)"
    using py_index_in_range [of "int z" Z] by simp
  have "length (column_sums (reconstruct (basis W z) (Z ! z) (row H z))) = shape1 H"
    using assms(2) by (simp add: length_column_sums length_row)
  then show ?case
    using z idx rows by (simp add: Let_def)
qed

lemma viterbi_path_labels:
  assumes "nmf_analysis_to_segmentation_using_viterbi_path reconstruct np_log seq win W Z H
             selfloopprob use_Z min_segment_length = Inr (labels, likelihood)"
  shows "length labels = shape1 H \<and> (\<forall>l \<in> set labels. 0 \<le> l \<and> l < int (length Z))"
proof -
  define Z1 where "Z1 = (if use_Z then Z else replicate (length Z) 1)"
  define rank where "rank = length Z1"
  define T where "T = shape1 H"
  have rank_Z: "rank = length Z"
    by (simp add: rank_def Z1_def)
  from assms obtain lik where lik: "likelihood_loop reconstruct W Z1 H [0..<rank] = Inr lik"
    unfolding nmf_analysis_to_segmentation_using_viterbi_path_def Let_def Z1_def [symmetric]
      rank_def [symmetric]
    by (auto split: sum.splits)
  define loglik where "loglik = map (map np_log) lik"
  define logtm where "logtm = map (map np_log) (transmat rank selfloopprob)"
  from assms lik have pos: "0 < rank"
    unfolding nmf_analysis_to_segmentation_using_viterbi_path_def Let_def Z1_def [symmetric]
      rank_def [symmetric]
    by (auto split: if_splits)
  have "\<forall>r \<in> set (replicate rank (replicate T (0 :: int))). length r = T \<and> states_in rank r"
    using pos by (auto simp: states_in_def)
  moreover have "length (loglik ! 0 # replicate (rank - 1) (replicate T (0 :: real))) = rank"
    using pos by simp
  ultimately obtain lattice traceback where
    fw: "viterbi_forward logtm loglik [1..<T]
           (loglik ! 0 # replicate (rank - 1) (replicate T 0), replicate rank (replicate T 0))
         = (lattice, traceback)"
    and ll: "length lattice = rank" and lt: "length traceback = rank"
    and rows: "\<forall>r \<in> set traceback. length r = T \<and> states_in rank r"
    using viterbi_forward_invariant [of "loglik ! 0 # replicate (rank - 1) (replicate T 0)" rank
        "replicate rank (replicate T 0)" T logtm loglik "[1..<T]"] pos
    by auto
  let ?frames = "rev (map (\<lambda>t. map (\<lambda>r. r ! t) traceback) [0..<T])"
  let ?s = "int (first_argmax (map (\<lambda>r. r ! (T - 1)) lattice))"
  from assms lik fw [unfolded loglik_def] pos obtain states where
    Tpos: "0 < T"
    and bt: "backtrack ?frames ?s = Inr states"
    and rs: "remove_short_segments (rev states) min_segment_length = Inr labels"
    unfolding nmf_analysis_to_segmentation_using_viterbi_path_def Let_def Z1_def [symmetric]
      rank_def [symmetric] T_def [symmetric] logtm_def [symmetric]
    by (auto split: sum.splits if_splits)
  have frames: "\<forall>frame \<in> set ?frames. length frame = rank \<and> states_in rank frame"
  proof
    fix frame assume "frame \<in> set ?frames"
    then obtain t where t: "t < T" and fr: "frame = map (\<lambda>r. r ! t) traceback"
      by auto
    have "states_in rank frame"
      unfolding states_in_def fr
    proof
      fix x assume "x \<in> set (map (\<lambda>r. r ! t) traceback)"
      then obtain r where r: "r \<in> set traceback" "x = r ! t"
        by auto
      with rows t have "x \<in> set r" "states_in rank r"
        by auto
      then show "0 \<le> x \<and> x < int rank"
        by (simp add: states_in_def)
    qed
    then show "length frame = rank \<and> states_in rank frame"
      by (simp add: fr lt)
  qed
  have "map (\<lambda>r. r ! (T - 1)) lattice \<noteq> []"
    using ll pos by auto
  then have "first_argmax (map (\<lambda>r. r ! (T - 1)) lattice) < rank"
    using first_argmax_bound [of "map (\<lambda>r. r ! (T - 1)) lattice"] ll by simp
  then have s: "0 \<le> ?s" "?s < int rank"
    by simp_all
  obtain states' where st: "backtrack ?frames ?s = Inr states'"
      "length states' = length ?frames" "states_in rank states'"
    using backtrack_states [OF frames s] by blast
  with bt have states: "length states = T" "states_in rank states"
    by simp_all
  obtain out where out: "remove_short_segments (rev states) min_segment_length = Inr out"
      "length out = length (rev states)" "set out \<subseteq> set (rev states)"
    using remove_short_segments_keeps [of "rev states" min_segment_length] by blast
  with rs have "length labels = T" "set labels \<subseteq> set states"
    using states(1) by simp_all
  with states(2) show ?thesis
    unfolding states_in_def T_def rank_Z by blast
qed


lemma viterbi_path_total:
  assumes Z: "Z \<noteq> []" and T: "0 < shape1 H"
    and W: "length Z \<le> dim1 W" and H: "length Z \<le> shape0 H"
    and shape: "\<forall>w z h. shape1 (reconstruct w z h) = length h"
  shows "\<exists>labels likelihood.
           nmf_analysis_to_segmentation_using_viterbi_path reconstruct np_log seq win W Z H
             selfloopprob use_Z min_segment_length = Inr (labels, likelihood)"
proof -
  define Z1 where "Z1 = (if use_Z then Z else replicate (length Z) 1)"
  define rank where "rank = length Z1"
  have rank_Z: "rank = length Z"
    by (simp add: rank_def Z1_def)
  have pos: "0 < rank"
    using Z rank_Z by simp
  have "\<forall>z \<in> set [0..<rank]. z < dim1 W \<and> z < length Z1 \<and> z < shape0 H"
    using W H rank_Z by (auto simp: rank_def)
  then obtain lik where lik: "likelihood_loop reconstruct W Z1 H [0..<rank] = Inr lik"
    using likelihood_loop_total [OF _ shape] by blast
  define loglik where "loglik = map (map np_log) lik"
  define logtm where "logtm = map (map np_log) (transmat rank selfloopprob)"
  have "\<forall>r \<in> set (replicate rank (replicate (shape1 H) (0 :: int))).
          length r = shape1 H \<and> states_in rank r"
    using pos by (auto simp: states_in_def)
  moreover have "length (loglik ! 0 # replicate (rank - 1) (replicate (shape1 H) (0 :: real))) = rank"
    using pos by simp
  ultimately obtain lattice traceback where
    fw: "viterbi_forward logtm loglik [1..<shape1 H]
           (loglik ! 0 # replicate (rank - 1) (replicate (shape1 H) 0),
            replicate rank (replicate (shape1 H) 0))
         = (lattice, traceback)"
    and ll: "length lattice = rank" and lt: "length traceback = rank"
    and rows: "\<forall>r \<in> set traceback. length r = shape1 H \<and> states_in rank r"
    using viterbi_forward_invariant [of "loglik ! 0 # replicate (rank - 1) (replicate (shape1 H) 0)"
        rank "replicate rank (replicate (shape1 H) 0)" "shape1 H" logtm loglik "[1..<shape1 H]"] pos
    by auto
  let ?frames = "rev (map (\<lambda>t. map (\<lambda>r. r ! t) traceback) [0..<shape1 H])"
  let ?s = "int (first_argmax (map (\<lambda>r. r ! (shape1 H - 1)) lattice))"
  have frames: "\<forall>frame \<in> set ?frames. length frame = rank \<and> states_in rank frame"
  proof
    fix frame assume "frame \<in> set ?frames"
    then obtain t where t: "t < shape1 H" and fr: "frame = map (\<lambda>r. r ! t) traceback"
      by auto
    have "states_in rank frame"
      unfolding states_in_def fr
    proof
      fix x assume "x \<in> set (map (\<lambda>r. r ! t) traceback)"
      then obtain r where r: "r \<in> set traceback" "x = r ! t"
        by auto
      with rows t have "x \<in> set r" "states_in rank r"
        by auto
      then show "0 \<le> x \<and> x < int rank"
        by (simp add: states_in_def)
    qed
    then show "length frame = rank \<and> states_in rank frame"
      by (simp add: fr lt)
  qed
  have "map (\<lambda>r. r ! (shape1 H - 1)) lattice \<noteq> []"
    using ll pos by auto
  then have "first_argmax (map (\<lambda>r. r ! (shape1 H - 1)) lattice) < rank"
    using first_argmax_bound [of "map (\<lambda>r. r ! (shape1 H - 1)) lattice"] ll by simp
  then have s: "0 \<le> ?s" "?s < int rank"
    by simp_all
  obtain states where st: "backtrack ?frames ?s = Inr states"
    using backtrack_states [OF frames s] by blast
  obtain out where out: "remove_short_segments (rev states) min_segment_length = Inr out"
    using remove_short_segments_keeps [of "rev states" min_segment_length] by blast
  have "nmf_analysis_to_segmentation_using_viterbi_path reconstruct np_log seq win W Z H
             selfloopprob use_Z min_segment_length = Inr (out, lik)"
    unfolding nmf_analysis_to_segmentation_using_viterbi_path_def Let_def Z1_def [symmetric]
      rank_def [symmetric] logtm_def [symmetric]
    using lik fw [unfolded loglik_def] pos T st out by simp
  then show ?thesis by blast
qed

lemma length_np_convolve_same:
  "np_convolve_same a v = Inr r \<Longrightarrow> length r = max (length a) (length v)"
  by (auto simp: np_convolve_same_def correlate_same_def split: if_splits)

lemma segfun_loop_lengths:
  assumes "segfun_loop reconstruct msl triples = Inr segfun"
  shows "list_all2 (\<lambda>x score. length score = max (shape1 (reconstruct (fst x) (fst (snd x)) (snd (snd x))))
                                              (nat msl)) triples segfun"
  using assms
proof (induction reconstruct msl triples arbitrary: segfun rule: segfun_loop.induct)
  case (1 reconstruct msl)
  then show ?case by simp
next
  case (2 reconstruct msl w z h rest)
  from "2.prems" obtain window score scores where
    w: "np_ones msl = Inr window"
    and c: "np_convolve_same (column_sums (reconstruct w z h)) window = Inr score"
    and r: "segfun_loop reconstruct msl rest = Inr scores"
    and s: "segfun = score # scores"
    by (auto split: sum.splits)
  have "length window = nat msl"
    using w by (auto simp: np_ones_def split: if_splits)
  then have "length score = max (shape1 (reconstruct w z h)) (nat msl)"
    using length_np_convolve_same [OF c] by (simp add: length_column_sums)
  moreover have "list_all2 (\<lambda>x score. length score = max (shape1 (reconstruct (fst x) (fst (snd x)) (snd (snd x))))
                                              (nat msl)) rest scores"
    using "2.IH" [OF w c r] .
  ultimately show ?case
    by (simp add: s)
qed

lemma correlation_labels:
  assumes run: "nmf_analysis_to_segmentation reconstruct seq win W Z H min_segment_length use_Z
                  = Inr (labels, segfun1)"
    and shape: "\<forall>w z h. shape1 (reconstruct w z h) = length h"
  shows "length labels = max (shape1 H) (nat min_segment_length)
       \<and> (\<forall>l \<in> set labels. 0 \<le> l \<and> l < int (length Z))"
proof -
  define Z1 where "Z1 = (if use_Z then Z else replicate (length Z) 1)"
  define triples where
    "triples = zip (map (basis W) [0..<dim1 W]) (zip Z1 (map (row H) [0..<shape0 H]))"
  have lenZ: "length triples \<le> length Z"
    by (simp add: triples_def Z1_def)
  from run obtain segfun where
    loop: "segfun_loop reconstruct min_segment_length triples = Inr segfun"
    and ne: "segfun \<noteq> []"
    and s1: "segfun1 = map (map (\<lambda>x. x / Max (set (concat segfun)))) segfun"
    and rs: "remove_short_segments
               (map (\<lambda>t. int (first_argmax (map (\<lambda>x. x ! t) segfun1))) [0..<length (hd segfun1)])
               min_segment_length = Inr labels"
    unfolding nmf_analysis_to_segmentation_def Let_def Z1_def [symmetric] triples_def [symmetric]
    by (auto split: sum.splits if_splits)
  let ?raw = "map (\<lambda>t. int (first_argmax (map (\<lambda>x. x ! t) segfun1))) [0..<length (hd segfun1)]"
  have all2: "list_all2 (\<lambda>x score. length score
                  = max (shape1 (reconstruct (fst x) (fst (snd x)) (snd (snd x)))) (nat min_segment_length))
                triples segfun"
    using segfun_loop_lengths [OF loop] .
  then have len: "length segfun = length triples"
    by (simp add: list_all2_lengthD)
  with ne have tne: "triples \<noteq> []"
    by auto
  have "snd (snd (triples ! 0)) \<in> set (map (row H) [0..<shape0 H])"
  proof -
    have "triples ! 0 \<in> set triples"
      using tne by simp
    then have "snd (triples ! 0) \<in> set (zip Z1 (map (row H) [0..<shape0 H]))"
      unfolding triples_def by (metis prod.collapse set_zip_rightD)
    then show ?thesis
      by (metis prod.collapse set_zip_rightD)
  qed
  then have h0: "length (snd (snd (triples ! 0))) = shape1 H"
    by (auto simp: length_row)
  have "length (segfun ! 0) = max (shape1 H) (nat min_segment_length)"
    using list_all2_nthD [OF all2, of 0] tne shape h0 by simp
  then have width: "length (hd segfun1) = max (shape1 H) (nat min_segment_length)"
    using ne by (simp add: s1 hd_map hd_conv_nth)
  have K: "length segfun1 = length triples"
    by (simp add: s1 len)
  have raw_rng: "\<forall>l \<in> set ?raw. 0 \<le> l \<and> l < int (length Z)"
  proof
    fix l assume "l \<in> set ?raw"
    then obtain t where l: "l = int (first_argmax (map (\<lambda>x. x ! t) segfun1))"
      by auto
    have "map (\<lambda>x. x ! t) segfun1 \<noteq> []"
      using ne by (simp add: s1)
    then have "first_argmax (map (\<lambda>x. x ! t) segfun1) < length segfun1"
      using first_argmax_bound [of "map (\<lambda>x. x ! t) segfun1"] by simp
    with K lenZ show "0 \<le> l \<and> l < int (length Z)"
      by (simp add: l)
  qed
  obtain out where out: "remove_short_segments ?raw min_segment_length = Inr out"
      "length out = length ?raw" "set out \<subseteq> set ?raw"
    using remove_short_segments_keeps [of ?raw min_segment_length] by blast
  with rs have "length labels = length ?raw" "set labels \<subseteq> set ?raw"
    by simp_all
  with width raw_rng show ?thesis
    by auto
qed

text \<open>
  Claim C7. Whenever the Viterbi extractor returns, it returns one label per frame, each in
  \<open>[0, len(Z))\<close> (\<open>viterbi_path_labels\<close>, and it returns for a non-empty \<open>Z\<close>, at least
  one frame and arrays of matching shapes, \<open>viterbi_path_total\<close>). The correlation extractor
  keeps its labels in \<open>[0, len(Z))\<close> as well, but their number is the larger of the frame
  count and \<open>min_segment_length\<close> (\<open>correlation_labels\<close>): \<open>np.convolve\<close> in mode
  \<open>same\<close> returns an array as long as its longer argument. Below, for three frames and
  \<open>min_segment_length = 5\<close>, the correlation extractor returns five labels where the
  Viterbi extractor returns three.
\<close>

theorem extractors_short_sequence:
  "nmf_analysis_to_segmentation scripted_reconstruct
       \<lparr>shape0 = 1, shape1 = 3, item = \<lambda>f t. 1\<rparr> 1
       \<lparr>dim0 = 1, dim1 = 1, dim2 = 1, entry = \<lambda>f k t. 1\<rparr> [1]
       \<lparr>shape0 = 1, shape1 = 3, item = \<lambda>k t. 1\<rparr> 5 True
     = Inr ([0, 0, 0, 0, 0], [[2 / 3, 1, 1, 1, 2 / 3]])
   \<and> nmf_analysis_to_segmentation_using_viterbi_path scripted_reconstruct (\<lambda>x. x - 1)
       \<lparr>shape0 = 1, shape1 = 3, item = \<lambda>f t. 1\<rparr> 1
       \<lparr>dim0 = 1, dim1 = 1, dim2 = 1, entry = \<lambda>f k t. 1\<rparr> [1]
       \<lparr>shape0 = 1, shape1 = 3, item = \<lambda>k t. 1\<rparr> (9 / 10) True 5
     = Inr ([0, 0, 0], [[1, 1, 1]])"
  by code_simp

end
